theory Spec2Isabelle
  imports Main
begin

section \<open>Prefix-notation lexer and parser (3_ParsingArithExp/Lexer.py)\<close>

text \<open>
  The development embeds \<^verbatim>\<open>Lexer.py\<close>: the token model, the stateful scanner
  \<^verbatim>\<open>Lexer\<close> with its methods \<^verbatim>\<open>getToken\<close> and \<^verbatim>\<open>next_valid_token\<close>, and the
  recursive parser \<^verbatim>\<open>compute_prefix\<close>.

  Modelling decisions.
  \<^item> A Python string is a list of \<^typ>\<open>char\<close>; the embedding therefore covers inputs
    whose code points lie in 0..255. On that range \<^verbatim>\<open>str.isdigit\<close> holds for the ten
    ASCII digits and for the superscripts U+00B2, U+00B3 and U+00B9, while \<^verbatim>\<open>int\<close>
    accepts the ASCII digits only.
  \<^item> The lexer object is mutated in place by every method; the embedding passes the
    lexer record explicitly and returns the updated record together with the result,
    also when the method raises.
  \<^item> Every \<^verbatim>\<open>raise\<close> is a value of type \<open>error\<close>; the two \<^verbatim>\<open>ValueError\<close>s of
    the source are kept apart by constructor, and the exceptions of the Python
    primitives used (string indexing, \<^verbatim>\<open>int\<close>, dictionary lookup) have their own.
  \<^item> \<^verbatim>\<open>position\<close> starts at 0 and is only ever incremented, so it is a \<^typ>\<open>nat\<close>.
  \<^item> The interpreter's resource limits (recursion depth, digit limit of \<^verbatim>\<open>int\<close>) are
    not part of the model.
\<close>

subsection \<open>Tokens\<close>

datatype TokenType = EOF | NLN | WSP | NUM | LPR | RPR | ADD | SUB | MUL | DIV

record Token =
  text' :: string
  kind :: TokenType

definition operators :: "TokenType set" where
  "operators = {ADD, SUB, MUL, DIV}"

subsection \<open>Errors\<close>

datatype error =
    UnexpectedCharacter char
  | UnexpectedToken TokenType
  | InvalidLiteral string
  | IndexError
  | KeyError

subsection \<open>Expression trees\<close>

text \<open>
  Modelled from the spec: \<^verbatim>\<open>Exp.py\<close>, which declares the classes \<^verbatim>\<open>Num\<close>, \<^verbatim>\<open>Add\<close>,
  \<^verbatim>\<open>Sub\<close>, \<^verbatim>\<open>Mul\<close> and \<^verbatim>\<open>Div\<close>, is not among the sources. The spec describes two
  variants: a numeric leaf holding an integer value, and a binary node holding an
  operator tag and two child expressions.
\<close>

datatype Expression =
    Num int
  | Add Expression Expression
  | Sub Expression Expression
  | Mul Expression Expression
  | Div Expression Expression


subsection \<open>Python primitives\<close>

text \<open>\<^verbatim>\<open>str.isdigit\<close> on the code points 0..255.\<close>

definition isdigit :: "char \<Rightarrow> bool" where
  "isdigit c =
     (let n = (of_char c :: nat)
      in (48 \<le> n \<and> n \<le> 57) \<or> n = 178 \<or> n = 179 \<or> n = 185)"

text \<open>\<^verbatim>\<open>str.isdecimal\<close> on the code points 0..255: the characters \<^verbatim>\<open>int\<close> reads.\<close>

definition isdecimal :: "char \<Rightarrow> bool" where
  "isdecimal c = (let n = (of_char c :: nat) in 48 \<le> n \<and> n \<le> 57)"

definition digit_value :: "char \<Rightarrow> int" where
  "digit_value c = int (of_char c) - 48"

text \<open>
  \<^verbatim>\<open>int(text)\<close> for the texts that reach it. The only caller passes the text of a
  \<^verbatim>\<open>NUM\<close> token, a non-empty run of \<^verbatim>\<open>isdigit\<close> characters (lemma
  \<open>getToken_NUM_text\<close> below): such a text is read in base ten when all its
  characters are decimal digits, and raises \<^verbatim>\<open>ValueError\<close> otherwise. Signs,
  underscores and surrounding blanks, which \<^verbatim>\<open>int\<close> also accepts, cannot occur in it.
\<close>

definition py_int :: "string \<Rightarrow> error + int" where
  "py_int t =
     (if t \<noteq> [] \<and> list_all isdecimal t
      then Inr (foldl (\<lambda>acc c. 10 * acc + digit_value c) 0 t)
      else Inl (InvalidLiteral t))"

text \<open>\<^verbatim>\<open>s[i]\<close> for a non-negative index: out of range raises \<^verbatim>\<open>IndexError\<close>.\<close>

definition index :: "string \<Rightarrow> nat \<Rightarrow> error + char" where
  "index s i = (if i < size s then Inr (s ! i) else Inl IndexError)"

subsection \<open>The lexer\<close>

record Lexer =
  input_string :: string
  position :: nat
  length' :: nat

text \<open>\<^verbatim>\<open>Lexer.__init__\<close>.\<close>

definition Lexer_init :: "string \<Rightarrow> Lexer" where
  "Lexer_init s = \<lparr>input_string = s, position = 0, length' = size s\<rparr>"

text \<open>The dictionary \<^verbatim>\<open>non_numeric_tokens\<close> of \<^verbatim>\<open>getToken\<close>.\<close>

definition non_numeric_tokens :: "char \<rightharpoonup> TokenType" where
  "non_numeric_tokens =
     map_of [(CHR ''+'', ADD), (CHR ''-'', SUB), (CHR ''*'', MUL), (CHR ''/'', DIV),
             (CHR ''('', LPR), (CHR '')'', RPR), (CHR '' '', WSP), (CHR 0x0A, NLN)]"

text \<open>
  The \<^verbatim>\<open>while\<close> loop of \<^verbatim>\<open>getToken\<close> that extends \<^verbatim>\<open>number_text\<close> as long as the
  character at \<^verbatim>\<open>position\<close> is a digit.
\<close>

function scan_digits :: "string \<Rightarrow> Lexer \<Rightarrow> (error + string) \<times> Lexer" where
  "scan_digits number_text lx =
     (if position lx < length' lx then
        (case index (input_string lx) (position lx) of
           Inl e \<Rightarrow> (Inl e, lx)
         | Inr c \<Rightarrow>
             if isdigit c
             then scan_digits (number_text @ [c]) (lx\<lparr>position := position lx + 1\<rparr>)
             else (Inr number_text, lx))
      else (Inr number_text, lx))"
  by pat_completeness auto
termination
  by (relation "measure (\<lambda>(t, lx). length' lx - position lx)") auto

declare scan_digits.simps [simp del]

definition getToken :: "Lexer \<Rightarrow> (error + Token) \<times> Lexer" where
  "getToken lx =
     (if position lx \<ge> length' lx then (Inr \<lparr>text' = [], kind = EOF\<rparr>, lx)
      else
        (case index (input_string lx) (position lx) of
           Inl e \<Rightarrow> (Inl e, lx)
         | Inr current_char \<Rightarrow>
             (let lx1 = lx\<lparr>position := position lx + 1\<rparr>
              in if isdigit current_char then
                   (case scan_digits [current_char] lx1 of
                      (Inl e, lx2) \<Rightarrow> (Inl e, lx2)
                    | (Inr number_text, lx2) \<Rightarrow>
                        (Inr \<lparr>text' = number_text, kind = NUM\<rparr>, lx2))
                 else
                   (case non_numeric_tokens current_char of
                      None \<Rightarrow> (Inl (UnexpectedCharacter current_char), lx1)
                    | Some k \<Rightarrow> (Inr \<lparr>text' = [current_char], kind = k\<rparr>, lx1)))))"

text \<open>The distance to the end of the input, which every successful scan reduces.\<close>

definition remaining :: "Lexer \<Rightarrow> nat" where
  "remaining lx = length' lx - position lx"

lemma scan_digits_position:
  "scan_digits t lx = (r, lx') \<Longrightarrow> position lx \<le> length' lx \<Longrightarrow>
   position lx \<le> position lx' \<and> position lx' \<le> length' lx' \<and>
   length' lx' = length' lx \<and> input_string lx' = input_string lx"
proof (induction t lx rule: scan_digits.induct)
  case (1 t lx)
  show ?case
  proof (cases "position lx < length' lx")
    case False
    with "1.prems" show ?thesis by (simp add: scan_digits.simps [of t lx])
  next
    case lt: True
    show ?thesis
    proof (cases "index (input_string lx) (position lx)")
      case (Inl e)
      with lt "1.prems" show ?thesis by (simp add: scan_digits.simps [of t lx])
    next
      case (Inr c)
      show ?thesis
      proof (cases "isdigit c")
        case False
        with lt Inr "1.prems" show ?thesis by (simp add: scan_digits.simps [of t lx])
      next
        case True
        with lt Inr "1.prems"
        have "scan_digits (t @ [c]) (lx\<lparr>position := position lx + 1\<rparr>) = (r, lx')"
          by (simp add: scan_digits.simps [of t lx])
        with "1.IH" [OF lt Inr True] lt show ?thesis by simp
      qed
    qed
  qed
qed

lemma getToken_position:
  assumes "getToken lx = (r, lx')"
  shows "position lx \<le> position lx' \<and> length' lx' = length' lx \<and>
         input_string lx' = input_string lx \<and>
         (position lx \<le> length' lx \<longrightarrow> position lx' \<le> length' lx')"
  using assms
  by (auto simp: getToken_def Let_def split: if_splits sum.splits prod.splits option.splits
           dest!: scan_digits_position)

lemma getToken_advances:
  assumes "getToken lx = (Inr tok, lx')" and "kind tok \<noteq> EOF"
  shows "remaining lx' < remaining lx"
  using assms unfolding remaining_def
  by (auto simp: getToken_def Let_def split: if_splits sum.splits prod.splits option.splits
           dest!: scan_digits_position)

text \<open>
  \<^verbatim>\<open>next_valid_token\<close>: scan one token and, when it is white space or a new line,
  recurse. An exception of \<^verbatim>\<open>getToken\<close> propagates.
\<close>

function next_valid_token :: "Lexer \<Rightarrow> (error + Token) \<times> Lexer" where
  "next_valid_token lx =
     (case getToken lx of
        (Inl e, lx1) \<Rightarrow> (Inl e, lx1)
      | (Inr token, lx1) \<Rightarrow>
          if kind token \<in> {WSP, NLN} then next_valid_token lx1 else (Inr token, lx1))"
  by pat_completeness auto
termination
proof (relation "measure remaining")
  show "wf (measure remaining)" by simp
next
  fix lx x tok lx1 xa
  assume "(x, lx1) = getToken lx" "x = Inr tok" "kind tok \<in> {WSP, NLN}"
  then have "getToken lx = (Inr tok, lx1)" "kind tok \<noteq> EOF" by auto
  then show "(lx1, lx) \<in> measure remaining"
    by (simp add: getToken_advances)
qed

declare next_valid_token.simps [simp del]

subsection \<open>The parser\<close>

text \<open>The dictionary \<^verbatim>\<open>operations_map\<close> of \<^verbatim>\<open>compute_prefix\<close>.\<close>

definition operations_map :: "TokenType \<rightharpoonup> (Expression \<Rightarrow> Expression \<Rightarrow> Expression)" where
  "operations_map = map_of [(ADD, Add), (SUB, Sub), (MUL, Mul), (DIV, Div)]"

text \<open>
  \<^verbatim>\<open>compute_prefix\<close>. The second recursive call runs on the lexer as the first one
  left it. The recursion is not structural, so the function is defined in the
  \<open>option\<close> domain, where \<open>None\<close> stands for a call that does not return; that it
  always returns is a theorem below.
\<close>

partial_function (option) compute_prefix :: "Lexer \<Rightarrow> ((error + Expression) \<times> Lexer) option" where
  "compute_prefix lexer =
     (case next_valid_token lexer of
        (Inl e, lx1) \<Rightarrow> Some (Inl e, lx1)
      | (Inr token, lx1) \<Rightarrow>
          if kind token = NUM then
            (case py_int (text' token) of
               Inl e \<Rightarrow> Some (Inl e, lx1)
             | Inr n \<Rightarrow> Some (Inr (Num n), lx1))
          else if kind token \<in> operators then
            Option.bind (compute_prefix lx1) (\<lambda>(ra, lx2).
              case ra of
                Inl e \<Rightarrow> Some (Inl e, lx2)
              | Inr a \<Rightarrow>
                  Option.bind (compute_prefix lx2) (\<lambda>(rb, lx3).
                    case rb of
                      Inl e \<Rightarrow> Some (Inl e, lx3)
                    | Inr b \<Rightarrow>
                        (case operations_map (kind token) of
                           None \<Rightarrow> Some (Inl KeyError, lx3)
                         | Some operation \<Rightarrow> Some (Inr (operation a b), lx3))))
          else Some (Inl (UnexpectedToken (kind token)), lx1))"

declare compute_prefix.simps [code]

section \<open>Notions used in the statements and in the proofs\<close>

text \<open>
  The state invariant of a lexer: \<^verbatim>\<open>length\<close> is the length of the input and
  \<^verbatim>\<open>position\<close> does not exceed it.
\<close>

definition Lexer_inv :: "Lexer \<Rightarrow> bool" where
  "Lexer_inv lx = (length' lx = size (input_string lx) \<and> position lx \<le> length' lx)"

text \<open>
  The states a lexer over the input \<open>s\<close> can be observed in: the state \<^verbatim>\<open>__init__\<close>
  creates, and the state after each call of \<^verbatim>\<open>getToken\<close>. The other methods change
  the lexer through \<^verbatim>\<open>getToken\<close> only.
\<close>

inductive reachable :: "string \<Rightarrow> Lexer \<Rightarrow> bool" for s :: string where
  init: "reachable s (Lexer_init s)"
| scan: "reachable s lx \<Longrightarrow> reachable s (snd (getToken lx))"

text \<open>
  \<open>moved lx lx'\<close>: the lexer \<open>lx'\<close> reads the same input as \<open>lx\<close> and is at least as
  far in it, within the bounds if \<open>lx\<close> was.
\<close>

definition moved :: "Lexer \<Rightarrow> Lexer \<Rightarrow> bool" where
  "moved lx lx' =
     (position lx \<le> position lx' \<and> length' lx' = length' lx \<and>
      input_string lx' = input_string lx \<and>
      (position lx \<le> length' lx \<longrightarrow> position lx' \<le> length' lx'))"

text \<open>
  Under the invariant, what a scan returns depends on the lexer only through the unread
  input, the characters from \<^verbatim>\<open>position\<close> on. The functions \<open>lex1\<close> and \<open>nvt\<close>
  below say what \<^verbatim>\<open>getToken\<close> and \<^verbatim>\<open>next_valid_token\<close> return on a given unread
  input, and how many characters they consume; they are not part of the source, and
  the lemmas \<open>getToken_rest\<close> and \<open>next_valid_token_rest\<close> prove them equal to the
  embedded methods.
\<close>

definition rest :: "Lexer \<Rightarrow> string" where
  "rest lx = drop (position lx) (input_string lx)"

text \<open>The two characters whose tokens \<^verbatim>\<open>next_valid_token\<close> discards.\<close>

definition isblank :: "char \<Rightarrow> bool" where
  "isblank c = (c = CHR '' '' \<or> c = CHR 0x0A)"

fun lex1 :: "string \<Rightarrow> (error + Token) \<times> nat" where
  "lex1 [] = (Inr \<lparr>text' = [], kind = EOF\<rparr>, 0)"
| "lex1 (c # cs) =
     (if isdigit c
      then (Inr \<lparr>text' = c # takeWhile isdigit cs, kind = NUM\<rparr>,
            Suc (length (takeWhile isdigit cs)))
      else (case non_numeric_tokens c of
              None \<Rightarrow> (Inl (UnexpectedCharacter c), 1)
            | Some k \<Rightarrow> (Inr \<lparr>text' = [c], kind = k\<rparr>, 1)))"

definition nvt :: "string \<Rightarrow> (error + Token) \<times> nat" where
  "nvt s = (case lex1 (dropWhile isblank s) of
              (r, n) \<Rightarrow> (r, length (takeWhile isblank s) + n))"

text \<open>Whether the first character of a string is a digit.\<close>

definition starts_with_digit :: "string \<Rightarrow> bool" where
  "starts_with_digit s = (case s of [] \<Rightarrow> False | c # cs \<Rightarrow> isdigit c)"






section \<open>Progress of the scanner and of the parser\<close>

lemma next_valid_token_position:
  "next_valid_token lx = (r, lx') \<Longrightarrow>
   position lx \<le> position lx' \<and> length' lx' = length' lx \<and>
   input_string lx' = input_string lx \<and>
   (position lx \<le> length' lx \<longrightarrow> position lx' \<le> length' lx')"
proof (induction lx rule: next_valid_token.induct)
  case (1 lx)
  obtain g lx1 where g: "getToken lx = (g, lx1)" by (cases "getToken lx")
  note p = getToken_position [OF g]
  show ?case
  proof (cases g)
    case (Inl e)
    with g "1.prems" p show ?thesis by (auto simp add: next_valid_token.simps [of lx])
  next
    case (Inr tok)
    show ?thesis
    proof (cases "kind tok \<in> {WSP, NLN}")
      case False
      with g Inr "1.prems" p show ?thesis by (auto simp add: next_valid_token.simps [of lx])
    next
      case True
      with g Inr "1.prems" have "next_valid_token lx1 = (r, lx')"
        by (simp add: next_valid_token.simps [of lx])
      from "1.IH" [OF g [symmetric] Inr True this] p show ?thesis by auto
    qed
  qed
qed

lemma next_valid_token_kind:
  "next_valid_token lx = (Inr tok, lx') \<Longrightarrow> kind tok \<noteq> WSP \<and> kind tok \<noteq> NLN"
proof (induction lx rule: next_valid_token.induct)
  case (1 lx)
  obtain g lx1 where g: "getToken lx = (g, lx1)" by (cases "getToken lx")
  show ?case
  proof (cases g)
    case (Inl e)
    with g "1.prems" show ?thesis by (simp add: next_valid_token.simps [of lx])
  next
    case (Inr t)
    show ?thesis
    proof (cases "kind t \<in> {WSP, NLN}")
      case False
      with g Inr "1.prems" show ?thesis by (auto simp add: next_valid_token.simps [of lx])
    next
      case True
      with g Inr "1.prems" have "next_valid_token lx1 = (Inr tok, lx')"
        by (simp add: next_valid_token.simps [of lx])
      from "1.IH" [OF g [symmetric] Inr True this] show ?thesis .
    qed
  qed
qed

lemma next_valid_token_advances:
  "next_valid_token lx = (Inr tok, lx') \<Longrightarrow> kind tok \<noteq> EOF \<Longrightarrow> remaining lx' < remaining lx"
proof (induction lx rule: next_valid_token.induct)
  case (1 lx)
  obtain g lx1 where g: "getToken lx = (g, lx1)" by (cases "getToken lx")
  show ?case
  proof (cases g)
    case (Inl e)
    with g "1.prems" show ?thesis by (simp add: next_valid_token.simps [of lx])
  next
    case (Inr t)
    show ?thesis
    proof (cases "kind t \<in> {WSP, NLN}")
      case False
      with g Inr "1.prems" have "t = tok" "lx1 = lx'"
        by (auto simp add: next_valid_token.simps [of lx])
      with g Inr "1.prems" show ?thesis by (simp add: getToken_advances)
    next
      case True
      with g Inr "1.prems" have n: "next_valid_token lx1 = (Inr tok, lx')"
        by (simp add: next_valid_token.simps [of lx])
      from True have "kind t \<noteq> EOF" by auto
      with g Inr have "remaining lx1 < remaining lx" by (simp add: getToken_advances)
      with "1.IH" [OF g [symmetric] Inr True n "1.prems"(2)] show ?thesis by simp
    qed
  qed
qed

lemma moved_trans: "moved a b \<Longrightarrow> moved b c \<Longrightarrow> moved a c"
  by (auto simp: moved_def)

lemma moved_remaining: "moved a b \<Longrightarrow> remaining b \<le> remaining a"
  by (auto simp: moved_def remaining_def)

lemma moved_inv: "moved a b \<Longrightarrow> Lexer_inv a \<Longrightarrow> Lexer_inv b"
  by (auto simp: moved_def Lexer_inv_def)

lemma next_valid_token_moved: "next_valid_token lx = (r, lx') \<Longrightarrow> moved lx lx'"
  using next_valid_token_position [of lx r lx'] by (auto simp: moved_def)

lemma compute_prefix_moved:
  "\<exists>r lx'. compute_prefix lx = Some (r, lx') \<and> moved lx lx'"
proof (induction "remaining lx" arbitrary: lx rule: less_induct)
  case less
  obtain t lx1 where t: "next_valid_token lx = (t, lx1)" by (cases "next_valid_token lx")
  then have m1: "moved lx lx1" by (rule next_valid_token_moved)
  show ?case
  proof (cases t)
    case (Inl e)
    with t m1 show ?thesis by (simp add: compute_prefix.simps [of lx])
  next
    case (Inr tok)
    show ?thesis
    proof (cases "kind tok = NUM")
      case True
      with t Inr m1 show ?thesis
        by (simp add: compute_prefix.simps [of lx] split: sum.split)
    next
      case notnum: False
      show ?thesis
      proof (cases "kind tok \<in> operators")
        case False
        with notnum t Inr m1 show ?thesis by (simp add: compute_prefix.simps [of lx])
      next
        case True
        then have "kind tok \<noteq> EOF" by (auto simp: operators_def)
        with t Inr have lt1: "remaining lx1 < remaining lx"
          by (simp add: next_valid_token_advances)
        from less [OF lt1] obtain ra lx2 where
          a: "compute_prefix lx1 = Some (ra, lx2)" and m2: "moved lx1 lx2"
          by blast
        from m1 m2 have m12: "moved lx lx2" by (rule moved_trans)
        show ?thesis
        proof (cases ra)
          case (Inl e)
          with a m12 True notnum t Inr show ?thesis
            by (simp add: compute_prefix.simps [of lx])
        next
          case ra: (Inr ea)
          from moved_remaining [OF m2] lt1 have "remaining lx2 < remaining lx" by simp
          from less [OF this] obtain rb lx3 where
            b: "compute_prefix lx2 = Some (rb, lx3)" and m3: "moved lx2 lx3"
            by blast
          from m12 m3 have "moved lx lx3" by (rule moved_trans)
          with a b ra True notnum t Inr show ?thesis
            by (simp add: compute_prefix.simps [of lx] split: sum.split option.split)
        qed
      qed
    qed
  qed
qed

lemma compute_prefix_SomeD:
  assumes "compute_prefix lx = Some (r, lx')"
  shows "moved lx lx'"
  using compute_prefix_moved [of lx] assms by auto

section \<open>The scanner as a function of the unread input\<close>

lemma rest_Cons:
  assumes "Lexer_inv lx" and "position lx < length' lx"
  shows "rest lx = input_string lx ! position lx # rest (lx\<lparr>position := position lx + 1\<rparr>)"
  using assms by (simp add: rest_def Lexer_inv_def Cons_nth_drop_Suc)

lemma rest_Nil:
  assumes "Lexer_inv lx" and "\<not> position lx < length' lx"
  shows "rest lx = []"
  using assms by (simp add: rest_def Lexer_inv_def)

lemma rest_advance: "rest (lx\<lparr>position := position lx + n\<rparr>) = drop n (rest lx)"
  by (simp add: rest_def add.commute)

lemma rest_init: "rest (Lexer_init s) = s"
  by (simp add: rest_def Lexer_init_def)

lemma Lexer_inv_init: "Lexer_inv (Lexer_init s)"
  by (simp add: Lexer_inv_def Lexer_init_def)

lemma Lexer_inv_step:
  assumes "Lexer_inv lx" and "position lx < length' lx"
  shows "Lexer_inv (lx\<lparr>position := position lx + 1\<rparr>)"
  using assms by (simp add: Lexer_inv_def)

lemma Lexer_inv_advance:
  assumes "Lexer_inv lx" and "n \<le> length (rest lx)"
  shows "Lexer_inv (lx\<lparr>position := position lx + n\<rparr>)"
  using assms by (auto simp: Lexer_inv_def rest_def)

lemma Lexer_inv_position:
  assumes "Lexer_inv lx"
  shows "position lx + length (rest lx) = length (input_string lx)"
  using assms by (simp add: Lexer_inv_def rest_def)

lemma scan_digits_rest:
  "Lexer_inv lx \<Longrightarrow>
   scan_digits t lx =
     (Inr (t @ takeWhile isdigit (rest lx)),
      lx\<lparr>position := position lx + length (takeWhile isdigit (rest lx))\<rparr>)"
proof (induction t lx rule: scan_digits.induct)
  case (1 t lx)
  show ?case
  proof (cases "position lx < length' lx")
    case False
    with "1.prems" have "rest lx = []" by (rule rest_Nil)
    with False show ?thesis by (simp add: scan_digits.simps [of t lx])
  next
    case lt: True
    let ?c = "input_string lx ! position lx"
    let ?lx1 = "lx\<lparr>position := position lx + 1\<rparr>"
    from "1.prems" lt have ix: "index (input_string lx) (position lx) = Inr ?c"
      by (simp add: index_def Lexer_inv_def)
    from "1.prems" lt have r: "rest lx = ?c # rest ?lx1" by (rule rest_Cons)
    show ?thesis
    proof (cases "isdigit ?c")
      case False
      with lt ix r show ?thesis by (simp add: scan_digits.simps [of t lx])
    next
      case True
      from "1.prems" lt have "Lexer_inv ?lx1" by (rule Lexer_inv_step)
      from "1.IH" [OF lt ix True this] lt ix True r show ?thesis
        by (simp add: scan_digits.simps [of t lx])
    qed
  qed
qed

lemma getToken_rest:
  assumes "Lexer_inv lx"
  shows "getToken lx =
           (fst (lex1 (rest lx)), lx\<lparr>position := position lx + snd (lex1 (rest lx))\<rparr>)"
proof (cases "position lx < length' lx")
  case False
  with assms have "rest lx = []" by (rule rest_Nil)
  with False show ?thesis by (simp add: getToken_def)
next
  case lt: True
  let ?c = "input_string lx ! position lx"
  let ?lx1 = "lx\<lparr>position := position lx + 1\<rparr>"
  from assms lt have ix: "index (input_string lx) (position lx) = Inr ?c"
    by (simp add: index_def Lexer_inv_def)
  from assms lt have r: "rest lx = ?c # rest ?lx1" by (rule rest_Cons)
  from assms lt have "Lexer_inv ?lx1" by (rule Lexer_inv_step)
  note sd = scan_digits_rest [OF this, of "[?c]"]
  show ?thesis
  proof (cases "isdigit ?c")
    case True
    with lt ix r sd show ?thesis by (simp add: getToken_def)
  next
    case False
    with lt ix r show ?thesis by (simp add: getToken_def split: option.split)
  qed
qed

lemma getToken_NUM_text:
  assumes "Lexer_inv lx" and "getToken lx = (Inr tok, lx')" and "kind tok = NUM"
  shows "text' tok \<noteq> [] \<and> list_all isdigit (text' tok)"
proof -
  from getToken_rest [OF assms(1)] assms(2) have "fst (lex1 (rest lx)) = Inr tok" by simp
  with assms(3) show ?thesis
    by (cases "rest lx")
       (auto simp: list_all_iff non_numeric_tokens_def split: if_splits option.splits
             dest: set_takeWhileD)
qed

lemma lex1_le: "snd (lex1 s) \<le> length s"
  by (cases s) (auto split: option.split intro: le_trans [OF length_takeWhile_le])

lemma lex1_blank:
  "isblank c \<Longrightarrow> \<exists>tok. lex1 (c # cs) = (Inr tok, 1) \<and> kind tok \<in> {WSP, NLN}"
  by (auto simp: isblank_def isdigit_def non_numeric_tokens_def)

lemma lex1_not_blank:
  "lex1 s = (Inr tok, n) \<Longrightarrow> kind tok \<in> {WSP, NLN} \<Longrightarrow> \<exists>c cs. s = c # cs \<and> isblank c"
  by (cases s) (auto simp: isblank_def non_numeric_tokens_def split: if_splits option.splits)

lemma next_valid_token_rest:
  "Lexer_inv lx \<Longrightarrow>
   next_valid_token lx =
     (fst (nvt (rest lx)), lx\<lparr>position := position lx + snd (nvt (rest lx))\<rparr>)"
proof (induction lx rule: next_valid_token.induct)
  case (1 lx)
  let ?l = "lex1 (rest lx)"
  let ?lx1 = "lx\<lparr>position := position lx + snd ?l\<rparr>"
  have g: "getToken lx = (fst ?l, ?lx1)" using "1.prems" by (rule getToken_rest)
  show ?case
  proof (cases "fst ?l")
    case (Inl e)
    then have "\<not> (\<exists>c cs. rest lx = c # cs \<and> isblank c)"
      using lex1_blank by (metis fst_conv sum.distinct(1))
    then have "dropWhile isblank (rest lx) = rest lx" "takeWhile isblank (rest lx) = []"
      by (cases "rest lx"; simp)+
    with g Inl show ?thesis
      by (simp add: next_valid_token.simps [of lx] nvt_def split: prod.split)
  next
    case (Inr tok)
    show ?thesis
    proof (cases "kind tok \<in> {WSP, NLN}")
      case False
      with Inr have "\<not> (\<exists>c cs. rest lx = c # cs \<and> isblank c)"
        using lex1_blank by (metis fst_conv sum.inject(2))
      then have "dropWhile isblank (rest lx) = rest lx" "takeWhile isblank (rest lx) = []"
        by (cases "rest lx"; simp)+
      with g Inr False show ?thesis
        by (simp add: next_valid_token.simps [of lx] nvt_def split: prod.split)
    next
      case True
      from Inr have l: "?l = (Inr tok, snd ?l)" by (metis prod.collapse)
      from lex1_not_blank [OF l True] obtain c cs where
        r: "rest lx = c # cs" and b: "isblank c" by blast
      from lex1_blank [OF b, of cs] r have one: "snd ?l = 1" by auto
      have inv1: "Lexer_inv ?lx1"
        using "1.prems" lex1_le [of "rest lx"] by (intro Lexer_inv_advance)
      have "rest ?lx1 = drop (snd ?l) (rest lx)" by (rule rest_advance)
      also have "\<dots> = drop 1 (rest lx)" by (simp only: one)
      also have "\<dots> = cs" by (simp add: r)
      finally have r1: "rest ?lx1 = cs" .
      from "1.IH" [OF g [symmetric] Inr True inv1]
      have "next_valid_token ?lx1 =
              (fst (nvt cs), ?lx1\<lparr>position := position ?lx1 + snd (nvt cs)\<rparr>)"
        by (simp only: r1)
      with g Inr True r b one show ?thesis
        by (simp add: next_valid_token.simps [of lx] nvt_def split: prod.split)
    qed
  qed
qed


lemma nvt_le: "snd (nvt s) \<le> length s"
proof -
  have "length (takeWhile isblank s) + length (dropWhile isblank s) = length s"
    by (metis length_append takeWhile_dropWhile_id)
  moreover obtain r n where l: "lex1 (dropWhile isblank s) = (r, n)"
    by (cases "lex1 (dropWhile isblank s)")
  moreover from l lex1_le [of "dropWhile isblank s"] have "n \<le> length (dropWhile isblank s)"
    by simp
  ultimately show ?thesis by (simp add: nvt_def)
qed

lemma next_valid_token_restD:
  assumes "Lexer_inv lx" and "next_valid_token lx = (r, lx')"
  shows "fst (nvt (rest lx)) = r" and "rest lx' = drop (snd (nvt (rest lx))) (rest lx)"
    and "Lexer_inv lx'" and "input_string lx' = input_string lx"
proof -
  from next_valid_token_rest [OF assms(1)] assms(2)
  have r: "fst (nvt (rest lx)) = r" and l: "lx' = lx\<lparr>position := position lx + snd (nvt (rest lx))\<rparr>"
    by simp_all
  show "fst (nvt (rest lx)) = r" by (rule r)
  show "rest lx' = drop (snd (nvt (rest lx))) (rest lx)" unfolding l by (rule rest_advance)
  from next_valid_token_moved [OF assms(2)] assms(1)
  show "Lexer_inv lx'" "input_string lx' = input_string lx"
    by (auto simp: moved_def Lexer_inv_def)
qed

lemma next_valid_token_restI:
  assumes "Lexer_inv lx" and "fst (nvt (rest lx)) = r"
  shows "\<exists>lx'. next_valid_token lx = (r, lx') \<and> rest lx' = drop (snd (nvt (rest lx))) (rest lx)
           \<and> Lexer_inv lx' \<and> input_string lx' = input_string lx"
proof -
  have n: "next_valid_token lx = (r, snd (next_valid_token lx))"
    using next_valid_token_rest [OF assms(1)] assms(2) by simp
  from next_valid_token_restD(2-4) [OF assms(1) n] n show ?thesis by blast
qed

section \<open>Unrecognised characters\<close>

lemma getToken_unexpected:
  assumes "Lexer_inv lx" and "position lx < length' lx"
    and "c = input_string lx ! position lx"
    and "\<not> isdigit c" and "non_numeric_tokens c = None"
  shows "getToken lx = (Inl (UnexpectedCharacter c), lx\<lparr>position := position lx + 1\<rparr>)"
  using assms by (simp add: getToken_def Lexer_inv_def index_def)

lemma non_numeric_tokens_None:
  "c \<notin> {CHR ''+'', CHR ''-'', CHR ''*'', CHR ''/'', CHR ''('', CHR '')'', CHR '' '', CHR 0x0A}
   \<Longrightarrow> non_numeric_tokens c = None"
  by (simp add: non_numeric_tokens_def)

text \<open>
  Claim C7. When the character at the current position is neither a digit nor one of
  the eight characters \<^verbatim>\<open>+ - * / ( )\<close>, space and newline, \<^verbatim>\<open>getToken\<close> raises the
  error that carries this character. The error is fatal to the scan and to the parse in
  progress: \<^verbatim>\<open>next_valid_token\<close> and \<^verbatim>\<open>compute_prefix\<close> started in that state end
  with the same error in the state the failed scan left, without scanning any further.
\<close>

theorem getToken_unexpected_character_fatal:
  assumes "Lexer_inv lx" and "position lx < length' lx"
    and "c = input_string lx ! position lx"
    and "\<not> isdigit c"
    and "c \<notin> {CHR ''+'', CHR ''-'', CHR ''*'', CHR ''/'', CHR ''('', CHR '')'',
               CHR '' '', CHR 0x0A}"
  shows "fst (getToken lx) = Inl (UnexpectedCharacter c)
       \<and> next_valid_token lx = (Inl (UnexpectedCharacter c), snd (getToken lx))
       \<and> compute_prefix lx = Some (Inl (UnexpectedCharacter c), snd (getToken lx))"
proof -
  from assms have g: "getToken lx = (Inl (UnexpectedCharacter c), lx\<lparr>position := position lx + 1\<rparr>)"
    by (intro getToken_unexpected non_numeric_tokens_None)
  then have n: "next_valid_token lx = (Inl (UnexpectedCharacter c), snd (getToken lx))"
    by (simp add: next_valid_token.simps [of lx])
  then have "compute_prefix lx = Some (Inl (UnexpectedCharacter c), snd (getToken lx))"
    by (simp add: compute_prefix.simps [of lx])
  with g n show ?thesis by simp
qed

theorem getToken_unexpected_character_fatal_witness:
  "fst (getToken (Lexer_init ''3@'' \<lparr>position := 1\<rparr>)) = Inl (UnexpectedCharacter CHR ''@'')
   \<and> next_valid_token (Lexer_init ''3@'' \<lparr>position := 1\<rparr>)
       = (Inl (UnexpectedCharacter CHR ''@''), snd (getToken (Lexer_init ''3@'' \<lparr>position := 1\<rparr>)))
   \<and> compute_prefix (Lexer_init ''3@'' \<lparr>position := 1\<rparr>)
       = Some (Inl (UnexpectedCharacter CHR ''@''), snd (getToken (Lexer_init ''3@'' \<lparr>position := 1\<rparr>)))"
  using getToken_unexpected_character_fatal [of "Lexer_init ''3@'' \<lparr>position := 1\<rparr>" "CHR ''@''"]
  by (simp add: Lexer_init_def Lexer_inv_def isdigit_def)

text \<open>
  Claim C9. When \<^verbatim>\<open>getToken\<close> meets an unrecognised character, the state it leaves
  has \<^verbatim>\<open>position\<close> advanced by one, past the offending character: the increment
  precedes the \<^verbatim>\<open>raise\<close>, so the failing scan changes the lexer.
\<close>

theorem getToken_error_not_atomic:
  assumes "Lexer_inv lx" and "position lx < length' lx"
    and "c = input_string lx ! position lx"
    and "\<not> isdigit c" and "non_numeric_tokens c = None"
  shows "getToken lx = (Inl (UnexpectedCharacter c), lx\<lparr>position := position lx + 1\<rparr>)
       \<and> position (snd (getToken lx)) = position lx + 1
       \<and> snd (getToken lx) \<noteq> lx"
proof -
  from assms have g: "getToken lx = (Inl (UnexpectedCharacter c), lx\<lparr>position := position lx + 1\<rparr>)"
    by (rule getToken_unexpected)
  have "position (lx\<lparr>position := position lx + 1\<rparr>) \<noteq> position lx" by simp
  then have "lx\<lparr>position := position lx + 1\<rparr> \<noteq> lx" by metis
  with g show ?thesis by simp
qed

theorem getToken_error_not_atomic_witness:
  "getToken (Lexer_init ''@'')
     = (Inl (UnexpectedCharacter CHR ''@''), \<lparr>input_string = ''@'', position = 1, length' = 1\<rparr>)
   \<and> position (snd (getToken (Lexer_init ''@''))) = 1
   \<and> snd (getToken (Lexer_init ''@'')) \<noteq> Lexer_init ''@''"
  using getToken_error_not_atomic [of "Lexer_init ''@''" "CHR ''@''"]
  by (simp add: Lexer_init_def Lexer_inv_def isdigit_def non_numeric_tokens_def)

section \<open>The position invariant\<close>

lemma getToken_inv:
  assumes "Lexer_inv lx"
  shows "Lexer_inv (snd (getToken lx)) \<and> input_string (snd (getToken lx)) = input_string lx"
  using assms getToken_position [of lx "fst (getToken lx)" "snd (getToken lx)"]
  by (simp add: Lexer_inv_def)

lemma reachable_inv: "reachable s lx \<Longrightarrow> Lexer_inv lx \<and> input_string lx = s"
proof (induction rule: reachable.induct)
  case init
  show ?case by (simp add: Lexer_inv_def Lexer_init_def)
next
  case (scan lx)
  with getToken_inv [of lx] show ?case by simp
qed

lemma reachable_next_valid_token:
  "reachable s lx \<Longrightarrow> reachable s (snd (next_valid_token lx))"
proof (induction lx rule: next_valid_token.induct)
  case (1 lx)
  obtain g lx1 where g: "getToken lx = (g, lx1)" by (cases "getToken lx")
  from reachable.scan [OF "1.prems"] g have r1: "reachable s lx1" by simp
  show ?case
  proof (cases g)
    case (Inl e)
    with g r1 show ?thesis by (simp add: next_valid_token.simps [of lx])
  next
    case (Inr tok)
    show ?thesis
    proof (cases "kind tok \<in> {WSP, NLN}")
      case False
      with g Inr r1 show ?thesis by (simp add: next_valid_token.simps [of lx])
    next
      case True
      from "1.IH" [OF g [symmetric] Inr True r1] g Inr True show ?thesis
        by (simp add: next_valid_token.simps [of lx])
    qed
  qed
qed

lemma reachable_compute_prefix:
  assumes ret: "compute_prefix lx = Some (r, lx')"
  shows "reachable s lx \<Longrightarrow> reachable s lx'"
proof -
  have "reachable s lx \<longrightarrow> reachable s (snd (r, lx'))"
  proof (rule compute_prefix.raw_induct
      [where P = "\<lambda>lx y. reachable s lx \<longrightarrow> reachable s (snd y)", OF _ ret])
    fix f lx y
    assume IH: "\<And>lx y. f lx = Some y \<Longrightarrow> reachable s lx \<longrightarrow> reachable s (snd y)"
      and eq: "(case next_valid_token lx of
        (Inl e, lx1) \<Rightarrow> Some (Inl e, lx1)
      | (Inr token, lx1) \<Rightarrow>
          if kind token = NUM then
            (case py_int (text' token) of
               Inl e \<Rightarrow> Some (Inl e, lx1)
             | Inr n \<Rightarrow> Some (Inr (Num n), lx1))
          else if kind token \<in> operators then
            Option.bind (f lx1) (\<lambda>(ra, lx2).
              case ra of
                Inl e \<Rightarrow> Some (Inl e, lx2)
              | Inr a \<Rightarrow>
                  Option.bind (f lx2) (\<lambda>(rb, lx3).
                    case rb of
                      Inl e \<Rightarrow> Some (Inl e, lx3)
                    | Inr b \<Rightarrow>
                        (case operations_map (kind token) of
                           None \<Rightarrow> Some (Inl KeyError, lx3)
                         | Some operation \<Rightarrow> Some (Inr (operation a b), lx3))))
          else Some (Inl (UnexpectedToken (kind token)), lx1)) = Some y"
    show "reachable s lx \<longrightarrow> reachable s (snd y)"
    proof
      assume r0: "reachable s lx"
      obtain t lx1 where t: "next_valid_token lx = (t, lx1)" by (cases "next_valid_token lx")
      from reachable_next_valid_token [OF r0] t have r1: "reachable s lx1" by simp
      from eq t r1 IH show "reachable s (snd y)"
        by (auto split: sum.splits if_splits option.splits prod.splits Option.bind_splits)
    qed
  qed
  then show "reachable s lx \<Longrightarrow> reachable s lx'" by simp
qed

lemma getToken_at_end:
  "length' lx \<le> position lx \<Longrightarrow> getToken lx = (Inr \<lparr>text' = [], kind = EOF\<rparr>, lx)"
  by (simp add: getToken_def)

lemma getToken_at_end_funpow:
  "length' lx \<le> position lx \<Longrightarrow> ((\<lambda>l. snd (getToken l)) ^^ n) lx = lx"
  by (induction n) (simp_all add: getToken_at_end)

text \<open>
  Claim C6. In every state a lexer can be observed in, \<open>0 \<le> position \<le> length\<close>
  (and \<^verbatim>\<open>length\<close> is the length of the unchanged input); no scan, by \<^verbatim>\<open>getToken\<close> or by
  \<^verbatim>\<open>next_valid_token\<close>, decreases \<^verbatim>\<open>position\<close>; and once \<^verbatim>\<open>position\<close> equals
  \<^verbatim>\<open>length\<close>, a scan after any number of earlier scans returns the \<^verbatim>\<open>EOF\<close> token
  with empty text, raises nothing and leaves the lexer as it was. The states in which
  \<^verbatim>\<open>next_valid_token\<close> and \<^verbatim>\<open>compute_prefix\<close> leave the lexer are such states too.
\<close>

theorem lexer_position_invariant:
  assumes "reachable s lx"
  shows "0 \<le> position lx \<and> position lx \<le> length' lx
       \<and> length' lx = length s \<and> input_string lx = s
       \<and> position lx \<le> position (snd (getToken lx))
       \<and> position lx \<le> position (snd (next_valid_token lx))
       \<and> (position lx = length' lx \<longrightarrow>
            (\<forall>n. getToken (((\<lambda>l. snd (getToken l)) ^^ n) lx)
                   = (Inr \<lparr>text' = [], kind = EOF\<rparr>, lx)))
       \<and> reachable s (snd (next_valid_token lx))
       \<and> (\<forall>r lx'. compute_prefix lx = Some (r, lx') \<longrightarrow> reachable s lx')"
proof -
  from assms have "Lexer_inv lx" "input_string lx = s" by (simp_all add: reachable_inv)
  then have a: "position lx \<le> length' lx \<and> length' lx = length s \<and> input_string lx = s"
    by (simp add: Lexer_inv_def)
  have b: "position lx \<le> position (snd (getToken lx))"
    using getToken_position [of lx "fst (getToken lx)" "snd (getToken lx)"] by simp
  have c: "position lx \<le> position (snd (next_valid_token lx))"
    using next_valid_token_position [of lx "fst (next_valid_token lx)" "snd (next_valid_token lx)"]
    by simp
  have d: "position lx = length' lx \<longrightarrow>
            (\<forall>n. getToken (((\<lambda>l. snd (getToken l)) ^^ n) lx)
                   = (Inr \<lparr>text' = [], kind = EOF\<rparr>, lx))"
    by (simp add: getToken_at_end_funpow getToken_at_end)
  have e: "reachable s (snd (next_valid_token lx))"
    using assms by (rule reachable_next_valid_token)
  have f: "\<forall>r lx'. compute_prefix lx = Some (r, lx') \<longrightarrow> reachable s lx'"
    using assms reachable_compute_prefix by blast
  from a b c d e f show ?thesis by simp
qed

theorem lexer_position_invariant_witness:
  "reachable ''7'' (snd (getToken (Lexer_init ''7'')))
   \<and> position (snd (getToken (Lexer_init ''7''))) = 1
   \<and> length' (snd (getToken (Lexer_init ''7''))) = 1
   \<and> getToken (((\<lambda>l. snd (getToken l)) ^^ 2) (snd (getToken (Lexer_init ''7''))))
       = (Inr \<lparr>text' = [], kind = EOF\<rparr>, snd (getToken (Lexer_init ''7'')))"
proof -
  have r: "reachable ''7'' (snd (getToken (Lexer_init ''7'')))"
    by (rule reachable.scan) (rule reachable.init)
  have g: "getToken (Lexer_init ''7'')
             = (Inr \<lparr>text' = ''7'', kind = NUM\<rparr>, \<lparr>input_string = ''7'', position = 1, length' = 1\<rparr>)"
    by (simp add: getToken_def Lexer_init_def index_def isdigit_def scan_digits.simps)
  from lexer_position_invariant [OF r] r g show ?thesis by simp
qed

section \<open>Numbers\<close>

lemma starts_with_digit_dropWhile: "\<not> starts_with_digit (dropWhile isdigit s)"
  by (induction s) (simp_all add: starts_with_digit_def)

text \<open>
  Claim C5. When the character at the current position is a digit, \<^verbatim>\<open>getToken\<close>
  returns a \<^verbatim>\<open>NUM\<close> token whose text is the longest run of digits that starts there
  (the unread input is that run followed by something that does not start with a
  digit) and moves \<^verbatim>\<open>position\<close> past the run. A \<^verbatim>\<open>-\<close> at the current position is
  a \<^verbatim>\<open>SUB\<close> token of its own, and no \<^verbatim>\<open>NUM\<close> text contains a \<^verbatim>\<open>-\<close>.
\<close>

theorem getToken_number_maximal_munch:
  assumes "Lexer_inv lx" and "position lx < length' lx"
    and "c = input_string lx ! position lx"
  shows "(isdigit c \<longrightarrow>
            getToken lx =
              (Inr \<lparr>text' = takeWhile isdigit (rest lx), kind = NUM\<rparr>,
               lx\<lparr>position := position lx + length (takeWhile isdigit (rest lx))\<rparr>)
          \<and> takeWhile isdigit (rest lx) \<noteq> []
          \<and> list_all isdigit (takeWhile isdigit (rest lx))
          \<and> rest lx = takeWhile isdigit (rest lx) @ dropWhile isdigit (rest lx)
          \<and> \<not> starts_with_digit (dropWhile isdigit (rest lx)))
       \<and> (c = CHR ''-'' \<longrightarrow>
            getToken lx = (Inr \<lparr>text' = ''-'', kind = SUB\<rparr>, lx\<lparr>position := position lx + 1\<rparr>))
       \<and> (\<forall>tok. fst (getToken lx) = Inr tok \<and> kind tok = NUM \<longrightarrow>
            CHR ''-'' \<notin> set (text' tok))"
proof -
  let ?lx1 = "lx\<lparr>position := position lx + 1\<rparr>"
  from assms have r: "rest lx = c # rest ?lx1" by (simp add: rest_Cons)
  note g = getToken_rest [OF assms(1)]
  have d: "isdigit c \<longrightarrow>
            getToken lx =
              (Inr \<lparr>text' = takeWhile isdigit (rest lx), kind = NUM\<rparr>,
               lx\<lparr>position := position lx + length (takeWhile isdigit (rest lx))\<rparr>)
          \<and> takeWhile isdigit (rest lx) \<noteq> []"
    using g r by simp
  have m: "list_all isdigit (takeWhile isdigit (rest lx))"
    by (simp add: list_all_iff) (metis set_takeWhileD)
  have s: "c = CHR ''-'' \<longrightarrow>
            getToken lx = (Inr \<lparr>text' = ''-'', kind = SUB\<rparr>, lx\<lparr>position := position lx + 1\<rparr>)"
    using g r by (simp add: isdigit_def non_numeric_tokens_def)
  have "\<not> isdigit CHR ''-''" by (simp add: isdigit_def)
  then have n: "\<forall>tok. fst (getToken lx) = Inr tok \<and> kind tok = NUM \<longrightarrow>
            CHR ''-'' \<notin> set (text' tok)"
    using g r
    by (auto simp: non_numeric_tokens_def split: if_splits option.splits dest: set_takeWhileD)
  from d m s n starts_with_digit_dropWhile [of "rest lx"] show ?thesis by simp
qed

theorem getToken_number_maximal_munch_witness:
  "getToken (Lexer_init ''-52+'' \<lparr>position := 1\<rparr>)
     = (Inr \<lparr>text' = ''52'', kind = NUM\<rparr>, \<lparr>input_string = ''-52+'', position = 3, length' = 4\<rparr>)
   \<and> getToken (Lexer_init ''-52+'')
     = (Inr \<lparr>text' = ''-'', kind = SUB\<rparr>, \<lparr>input_string = ''-52+'', position = 1, length' = 4\<rparr>)"
  using getToken_number_maximal_munch [of "Lexer_init ''-52+'' \<lparr>position := 1\<rparr>" "CHR ''5''"]
    getToken_number_maximal_munch [of "Lexer_init ''-52+''" "CHR ''-''"]
  by (simp add: Lexer_init_def Lexer_inv_def isdigit_def rest_def)












lemma compute_prefix_NUM:
  assumes "next_valid_token lx = (Inr tok, lx1)" and "kind tok = NUM"
    and "py_int (text' tok) = Inr n"
  shows "compute_prefix lx = Some (Inr (Num n), lx1)"
  using assms by (simp add: compute_prefix.simps [of lx])


section \<open>Termination and unexpected tokens\<close>

text \<open>
  Claim C10. \<^verbatim>\<open>compute_prefix\<close> returns, with an expression or with an error, from
  every lexer state and so for every input string. The reason is the one the claim
  gives: a token other than \<^verbatim>\<open>EOF\<close> moves the lexer strictly closer to the end of
  the input, and \<^verbatim>\<open>EOF\<close> ends the call with an error at once.
\<close>

theorem compute_prefix_terminates:
  "(\<exists>r lx'. compute_prefix lx = Some (r, lx'))
   \<and> (\<exists>r lx'. compute_prefix (Lexer_init s) = Some (r, lx'))
   \<and> (\<forall>tok lx1. next_valid_token lx = (Inr tok, lx1) \<and> kind tok \<noteq> EOF \<longrightarrow>
         position lx < position lx1 \<and> position lx1 \<le> length' lx \<and> length' lx1 = length' lx
         \<and> remaining lx1 < remaining lx)
   \<and> (\<forall>tok lx1. next_valid_token lx = (Inr tok, lx1) \<and> kind tok = EOF \<longrightarrow>
         compute_prefix lx = Some (Inl (UnexpectedToken EOF), lx1))"
proof -
  have a: "\<exists>r lx'. compute_prefix lx = Some (r, lx')" for lx
    using compute_prefix_moved [of lx] by blast
  have c: "\<forall>tok lx1. next_valid_token lx = (Inr tok, lx1) \<and> kind tok \<noteq> EOF \<longrightarrow>
         position lx < position lx1 \<and> position lx1 \<le> length' lx \<and> length' lx1 = length' lx
         \<and> remaining lx1 < remaining lx"
  proof (intro allI impI, elim conjE)
    fix tok lx1
    assume n: "next_valid_token lx = (Inr tok, lx1)" and k: "kind tok \<noteq> EOF"
    from n k have "remaining lx1 < remaining lx" by (rule next_valid_token_advances)
    with next_valid_token_position [OF n]
    show "position lx < position lx1 \<and> position lx1 \<le> length' lx \<and> length' lx1 = length' lx
         \<and> remaining lx1 < remaining lx"
      by (auto simp: remaining_def)
  qed
  have d: "\<forall>tok lx1. next_valid_token lx = (Inr tok, lx1) \<and> kind tok = EOF \<longrightarrow>
         compute_prefix lx = Some (Inl (UnexpectedToken EOF), lx1)"
    by (simp add: compute_prefix.simps [of lx] operators_def)
  from a c d show ?thesis by blast
qed

theorem compute_prefix_terminates_witness:
  "next_valid_token (Lexer_init ''+ 1'')
     = (Inr \<lparr>text' = ''+'', kind = ADD\<rparr>, \<lparr>input_string = ''+ 1'', position = 1, length' = 3\<rparr>)
   \<and> position (Lexer_init ''+ 1'') < position \<lparr>input_string = ''+ 1'', position = 1, length' = 3\<rparr>
   \<and> remaining \<lparr>input_string = ''+ 1'', position = 1, length' = 3\<rparr> < remaining (Lexer_init ''+ 1'')
   \<and> next_valid_token (Lexer_init '' '')
     = (Inr \<lparr>text' = [], kind = EOF\<rparr>, \<lparr>input_string = '' '', position = 1, length' = 1\<rparr>)
   \<and> compute_prefix (Lexer_init '' '')
     = Some (Inl (UnexpectedToken EOF), \<lparr>input_string = '' '', position = 1, length' = 1\<rparr>)"
proof -
  have a: "next_valid_token (Lexer_init ''+ 1'')
     = (Inr \<lparr>text' = ''+'', kind = ADD\<rparr>, \<lparr>input_string = ''+ 1'', position = 1, length' = 3\<rparr>)"
    by (simp add: next_valid_token.simps getToken_def Lexer_init_def
        index_def isdigit_def non_numeric_tokens_def)
  have b: "next_valid_token (Lexer_init '' '')
     = (Inr \<lparr>text' = [], kind = EOF\<rparr>, \<lparr>input_string = '' '', position = 1, length' = 1\<rparr>)"
    by (simp add: next_valid_token.simps getToken_def Lexer_init_def
        index_def isdigit_def non_numeric_tokens_def)
  from compute_prefix_terminates [of "Lexer_init ''+ 1''" "[]"]
    compute_prefix_terminates [of "Lexer_init '' ''" "[]"] a b
  show ?thesis by simp
qed

text \<open>
  Claim C4. When the token \<^verbatim>\<open>next_valid_token\<close> hands to \<^verbatim>\<open>compute_prefix\<close> is
  neither a number nor one of the four operators (it is then \<^verbatim>\<open>EOF\<close>, \<^verbatim>\<open>LPR\<close> or
  \<^verbatim>\<open>RPR\<close>), the parser fails with the error that carries the kind of that token. The
  input \<^verbatim>\<open>+\<close> alone fails with the error for \<^verbatim>\<open>EOF\<close>.
\<close>

theorem compute_prefix_unexpected_token:
  assumes "next_valid_token lx = (Inr tok, lx1)"
    and "kind tok \<noteq> NUM" and "kind tok \<notin> operators"
  shows "compute_prefix lx = Some (Inl (UnexpectedToken (kind tok)), lx1)
       \<and> kind tok \<in> {EOF, LPR, RPR}
       \<and> compute_prefix (Lexer_init ''+'')
           = Some (Inl (UnexpectedToken EOF), \<lparr>input_string = ''+'', position = 1, length' = 1\<rparr>)"
proof -
  from assms have a: "compute_prefix lx = Some (Inl (UnexpectedToken (kind tok)), lx1)"
    by (simp add: compute_prefix.simps [of lx])
  from next_valid_token_kind [OF assms(1)] assms(2,3) have b: "kind tok \<in> {EOF, LPR, RPR}"
    by (cases "kind tok") (simp_all add: operators_def)
  have c: "compute_prefix (Lexer_init ''+'')
           = Some (Inl (UnexpectedToken EOF), \<lparr>input_string = ''+'', position = 1, length' = 1\<rparr>)"
    by (simp add: compute_prefix.simps next_valid_token.simps getToken_def Lexer_init_def
        index_def isdigit_def non_numeric_tokens_def operators_def)
  from a b c show ?thesis by simp
qed

theorem compute_prefix_unexpected_token_witness:
  "next_valid_token (Lexer_init '' (1'')
     = (Inr \<lparr>text' = ''('', kind = LPR\<rparr>, \<lparr>input_string = '' (1'', position = 2, length' = 3\<rparr>)
   \<and> compute_prefix (Lexer_init '' (1'')
     = Some (Inl (UnexpectedToken LPR), \<lparr>input_string = '' (1'', position = 2, length' = 3\<rparr>)"
proof -
  have n: "next_valid_token (Lexer_init '' (1'')
     = (Inr \<lparr>text' = ''('', kind = LPR\<rparr>, \<lparr>input_string = '' (1'', position = 2, length' = 3\<rparr>)"
    by (simp add: next_valid_token.simps getToken_def Lexer_init_def
        index_def isdigit_def non_numeric_tokens_def)
  from compute_prefix_unexpected_token [OF n] n show ?thesis by (simp add: operators_def)
qed

section \<open>Parses over related inputs\<close>

lemma operations_map_SomeD:
  "operations_map k = Some op \<Longrightarrow> k \<noteq> NUM \<and> k \<noteq> EOF \<and> k \<in> operators"
  by (auto simp: operations_map_def operators_def split: if_splits)

lemma compute_prefix_op:
  assumes "next_valid_token lx = (Inr tok, lx1)" and "operations_map (kind tok) = Some op"
    and "compute_prefix lx1 = Some (Inr a, lx2)" and "compute_prefix lx2 = Some (Inr b, lx3)"
  shows "compute_prefix lx = Some (Inr (op a b), lx3)"
  using assms operations_map_SomeD [OF assms(2)]
  by (simp add: compute_prefix.simps [of lx])

text \<open>What a successful parse went through.\<close>

lemma compute_prefix_InrE:
  assumes "compute_prefix lx = Some (Inr e, lx')"
  obtains (num) tok n where "next_valid_token lx = (Inr tok, lx')" and "kind tok = NUM"
      and "py_int (text' tok) = Inr n" and "e = Num n"
    | (op) tok lx1 a lx2 b op where "next_valid_token lx = (Inr tok, lx1)"
      and "operations_map (kind tok) = Some op"
      and "compute_prefix lx1 = Some (Inr a, lx2)" and "compute_prefix lx2 = Some (Inr b, lx')"
      and "e = op a b"
proof -
  obtain t lx1 where t: "next_valid_token lx = (t, lx1)" by (cases "next_valid_token lx")
  show thesis
  proof (cases t)
    case (Inl err)
    with t assms show thesis by (simp add: compute_prefix.simps [of lx])
  next
    case (Inr tok)
    show thesis
    proof (cases "kind tok = NUM")
      case True
      with t Inr assms obtain n where "py_int (text' tok) = Inr n" "e = Num n" "lx1 = lx'"
        by (auto simp: compute_prefix.simps [of lx] split: sum.splits)
      with t Inr True show thesis by (intro num [of tok n]) simp_all
    next
      case notnum: False
      show thesis
      proof (cases "kind tok \<in> operators")
        case False
        with notnum t Inr assms show thesis by (simp add: compute_prefix.simps [of lx])
      next
        case True
        obtain ra lx2 where a: "compute_prefix lx1 = Some (ra, lx2)"
          using compute_prefix_moved [of lx1] by blast
        show thesis
        proof (cases ra)
          case (Inl err)
          with a True notnum t Inr assms show thesis
            by (simp add: compute_prefix.simps [of lx])
        next
          case ra: (Inr ea)
          obtain rb lx3 where b: "compute_prefix lx2 = Some (rb, lx3)"
            using compute_prefix_moved [of lx2] by blast
          show thesis
          proof (cases rb)
            case (Inl err)
            with a b ra True notnum t Inr assms show thesis
              by (simp add: compute_prefix.simps [of lx])
          next
            case rb: (Inr eb)
            show thesis
            proof (cases "operations_map (kind tok)")
              case None
              with a b ra rb True notnum t Inr assms show thesis
                by (simp add: compute_prefix.simps [of lx])
            next
              case (Some f)
              with a b ra rb True notnum t Inr assms
              have "lx3 = lx'" "e = f ea eb" by (simp_all add: compute_prefix.simps [of lx])
              with a b ra rb t Inr Some show thesis by (intro op [of tok lx1 f ea lx2 eb]) simp_all
            qed
          qed
        qed
      qed
    qed
  qed
qed

text \<open>
  Two lexers whose unread inputs are related give the same tree when the relation is
  kept by every scan of a token the parser accepts. \<open>R\<close> relates the unread inputs
  before the first token, \<open>Q\<close> after any token.
\<close>

lemma compute_prefix_simulation:
  fixes R Q :: "string \<Rightarrow> string \<Rightarrow> bool"
  assumes step: "\<And>s s' tok. R s s' \<or> Q s s' \<Longrightarrow> fst (nvt s) = Inr tok \<Longrightarrow> kind tok \<noteq> EOF \<Longrightarrow>
            fst (nvt s') = Inr tok \<and> Q (drop (snd (nvt s)) s) (drop (snd (nvt s')) s')"
  shows "Lexer_inv lx \<Longrightarrow> Lexer_inv ly \<Longrightarrow> R (rest lx) (rest ly) \<or> Q (rest lx) (rest ly) \<Longrightarrow>
         compute_prefix lx = Some (Inr e, lx') \<Longrightarrow>
         \<exists>ly'. compute_prefix ly = Some (Inr e, ly') \<and> Q (rest lx') (rest ly')
              \<and> Lexer_inv ly' \<and> input_string ly' = input_string ly"
proof (induction "remaining lx" arbitrary: lx ly e lx' rule: less_induct)
  case less
  note inv = \<open>Lexer_inv lx\<close> \<open>Lexer_inv ly\<close>
  note rel = \<open>R (rest lx) (rest ly) \<or> Q (rest lx) (rest ly)\<close>
  from \<open>compute_prefix lx = Some (Inr e, lx')\<close> show ?case
  proof (cases rule: compute_prefix_InrE)
    case (num tok n)
    from next_valid_token_restD(1,2) [OF inv(1) num(1)]
    have tx: "fst (nvt (rest lx)) = Inr tok"
      and rx: "rest lx' = drop (snd (nvt (rest lx))) (rest lx)" .
    from num(2) have "kind tok \<noteq> EOF" by simp
    from step [OF rel tx this]
    have ty: "fst (nvt (rest ly)) = Inr tok"
      and q: "Q (drop (snd (nvt (rest lx))) (rest lx)) (drop (snd (nvt (rest ly))) (rest ly))"
      by simp_all
    from next_valid_token_restI [OF inv(2) ty] obtain ly' where
      ny: "next_valid_token ly = (Inr tok, ly')"
      and ry: "rest ly' = drop (snd (nvt (rest ly))) (rest ly)"
      and iy: "Lexer_inv ly'" "input_string ly' = input_string ly" by blast
    from ny num(2,3) have "compute_prefix ly = Some (Inr (Num n), ly')"
      by (rule compute_prefix_NUM)
    with q rx ry iy num(4) show ?thesis by simp
  next
    case (op tok lx1 a lx2 b f)
    from next_valid_token_restD [OF inv(1) op(1)]
    have tx: "fst (nvt (rest lx)) = Inr tok"
      and rx: "rest lx1 = drop (snd (nvt (rest lx))) (rest lx)"
      and ix1: "Lexer_inv lx1" by simp_all
    from operations_map_SomeD [OF op(2)] have ne: "kind tok \<noteq> EOF" by simp
    from step [OF rel tx ne]
    have ty: "fst (nvt (rest ly)) = Inr tok"
      and q: "Q (drop (snd (nvt (rest lx))) (rest lx)) (drop (snd (nvt (rest ly))) (rest ly))"
      by simp_all
    from next_valid_token_restI [OF inv(2) ty] obtain ly1 where
      ny: "next_valid_token ly = (Inr tok, ly1)"
      and ry: "rest ly1 = drop (snd (nvt (rest ly))) (rest ly)"
      and iy1: "Lexer_inv ly1" "input_string ly1 = input_string ly" by blast
    from op(1) ne have lt1: "remaining lx1 < remaining lx" by (rule next_valid_token_advances)
    from q rx ry have q1: "R (rest lx1) (rest ly1) \<or> Q (rest lx1) (rest ly1)" by simp
    from less.hyps [OF lt1 ix1 iy1(1) q1 op(3)] obtain ly2 where
      ca: "compute_prefix ly1 = Some (Inr a, ly2)" and q2: "Q (rest lx2) (rest ly2)"
      and iy2: "Lexer_inv ly2" "input_string ly2 = input_string ly1" by blast
    from compute_prefix_SomeD [OF op(3)] have m2: "moved lx1 lx2" .
    from moved_remaining [OF m2] lt1 have lt2: "remaining lx2 < remaining lx" by simp
    from moved_inv [OF m2 ix1] have ix2: "Lexer_inv lx2" .
    from q2 have q2': "R (rest lx2) (rest ly2) \<or> Q (rest lx2) (rest ly2)" by simp
    from less.hyps [OF lt2 ix2 iy2(1) q2' op(4)] obtain ly3 where
      cb: "compute_prefix ly2 = Some (Inr b, ly3)" and q3: "Q (rest lx') (rest ly3)"
      and iy3: "Lexer_inv ly3" "input_string ly3 = input_string ly2" by blast
    from ny op(2) ca cb have "compute_prefix ly = Some (Inr (f a b), ly3)"
      by (rule compute_prefix_op)
    with q3 iy3 iy2 iy1 op(5) show ?thesis by simp
  qed
qed

section \<open>Trailing input\<close>

lemma takeWhile_isdigit_append:
  "(list_all isdigit cs \<longrightarrow> \<not> starts_with_digit y) \<Longrightarrow>
   takeWhile isdigit (cs @ y) = takeWhile isdigit cs"
proof (induction cs)
  case Nil
  then show ?case by (cases y) (simp_all add: starts_with_digit_def)
next
  case (Cons a cs)
  then show ?case by simp
qed

lemma lex1_append:
  assumes "s \<noteq> []" and "list_all isdigit s \<longrightarrow> \<not> starts_with_digit y"
  shows "lex1 (s @ y) = lex1 s"
proof -
  from assms(1) obtain c cs where s: "s = c # cs" by (cases s) auto
  show ?thesis
  proof (cases "isdigit c")
    case True
    with assms(2) s have "list_all isdigit cs \<longrightarrow> \<not> starts_with_digit y" by simp
    then have "takeWhile isdigit (cs @ y) = takeWhile isdigit cs"
      by (rule takeWhile_isdigit_append)
    with s True show ?thesis by simp
  next
    case False
    with s show ?thesis by simp
  qed
qed

lemma nvt_append:
  assumes "dropWhile isblank s \<noteq> []"
    and "list_all isdigit (dropWhile isblank s) \<longrightarrow> \<not> starts_with_digit y"
  shows "nvt (s @ y) = nvt s"
proof -
  from assms(1) have "\<exists>x\<in>set s. \<not> isblank x" by (auto simp: dropWhile_eq_Nil_conv)
  then obtain x where x: "x \<in> set s" "\<not> isblank x" by blast
  then have "dropWhile isblank (s @ y) = dropWhile isblank s @ y"
    and "takeWhile isblank (s @ y) = takeWhile isblank s"
    by (simp_all add: dropWhile_append1 takeWhile_append1)
  with lex1_append [OF assms] show ?thesis by (simp add: nvt_def)
qed

lemma nvt_token_not_Nil:
  assumes "fst (nvt s) = Inr tok" and "kind tok \<noteq> EOF"
  shows "dropWhile isblank s \<noteq> []"
proof
  assume "dropWhile isblank s = []"
  with assms show False by (auto simp: nvt_def)
qed

lemma nvt_blanks_front:
  assumes "list_all isblank pre"
  shows "nvt (pre @ s) = (fst (nvt s), length pre + snd (nvt s))"
proof -
  from assms have "dropWhile isblank (pre @ s) = dropWhile isblank s"
    and "takeWhile isblank (pre @ s) = pre @ takeWhile isblank s"
    by (simp_all add: list_all_iff dropWhile_append2 takeWhile_append2)
  then show ?thesis by (simp add: nvt_def split: prod.split)
qed

text \<open>
  A text that parses still parses, to the same tree, when blanks are put in front of
  it and anything that does not start with a digit is put behind it; what was put
  behind is left unread.
\<close>

lemma compute_prefix_embedded:
  assumes pre: "list_all isblank pre" and post: "\<not> starts_with_digit post"
    and inv: "Lexer_inv lx" "Lexer_inv ly"
    and rel: "rest ly = pre @ rest lx @ post"
    and ok: "compute_prefix lx = Some (Inr e, lx')"
  shows "\<exists>ly'. compute_prefix ly = Some (Inr e, ly') \<and> rest ly' = rest lx' @ post
           \<and> Lexer_inv ly' \<and> input_string ly' = input_string ly"
proof -
  let ?R = "\<lambda>s s'. s' = pre @ s @ post"
  let ?Q = "\<lambda>s s'. s' = s @ post"
  have step: "fst (nvt s') = Inr tok \<and> ?Q (drop (snd (nvt s)) s) (drop (snd (nvt s')) s')"
    if rq: "?R s s' \<or> ?Q s s'" and tok: "fst (nvt s) = Inr tok" and ne: "kind tok \<noteq> EOF"
    for s s' tok
  proof -
    from tok ne have "dropWhile isblank s \<noteq> []" by (rule nvt_token_not_Nil)
    then have a: "nvt (s @ post) = nvt s" using post by (intro nvt_append) simp_all
    have le: "snd (nvt s) \<le> length s" by (rule nvt_le)
    from rq show ?thesis
    proof
      assume "?R s s'"
      then have "nvt s' = (fst (nvt s), length pre + snd (nvt s))"
        using nvt_blanks_front [OF pre, of "s @ post"] a by simp
      with \<open>?R s s'\<close> tok le show ?thesis by simp
    next
      assume "?Q s s'"
      with a tok le show ?thesis by simp
    qed
  qed
  from rel have "?R (rest lx) (rest ly) \<or> ?Q (rest lx) (rest ly)" by simp
  from compute_prefix_simulation [where R = ?R and Q = ?Q, OF step inv this ok]
  show ?thesis by simp
qed

text \<open>
  Claim C3. \<^verbatim>\<open>compute_prefix\<close> does not check that it has read the whole input. When
  a text \<open>s\<close> parses to a tree, the text \<open>s\<close> followed by anything that starts a new
  token (anything that does not begin with a digit, which would extend a number at the
  end of \<open>s\<close>) parses to the same tree, and the lexer stops where it stopped on \<open>s\<close>
  alone: what follows stays unread, and no error is raised for it.
\<close>

theorem compute_prefix_ignores_trailing:
  assumes "compute_prefix (Lexer_init s) = Some (Inr e, lx')"
    and "\<not> starts_with_digit trailing"
  shows "compute_prefix (Lexer_init (s @ trailing))
           = Some (Inr e, (Lexer_init (s @ trailing))\<lparr>position := position lx'\<rparr>)
       \<and> position lx' \<le> length s
       \<and> drop (position lx') (s @ trailing) = drop (position lx') s @ trailing"
proof -
  have "list_all isblank []" by simp
  from compute_prefix_embedded [OF this assms(2) Lexer_inv_init Lexer_inv_init _ assms(1),
      of "s @ trailing"]
  obtain ly' where c: "compute_prefix (Lexer_init (s @ trailing)) = Some (Inr e, ly')"
    and r: "rest ly' = rest lx' @ trailing" and i: "Lexer_inv ly'"
    and s: "input_string ly' = s @ trailing"
    by (auto simp: rest_init) (simp add: Lexer_init_def)
  from compute_prefix_SomeD [OF assms(1)] have m: "moved (Lexer_init s) lx'" .
  from moved_inv [OF m Lexer_inv_init] have i': "Lexer_inv lx'" .
  from m have s': "input_string lx' = s" by (simp add: moved_def Lexer_init_def)
  from Lexer_inv_position [OF i] Lexer_inv_position [OF i'] r s s'
  have p: "position ly' = position lx'" by simp
  from i' s' have le: "position lx' \<le> length s" by (simp add: Lexer_inv_def)
  from i s p have "ly' = (Lexer_init (s @ trailing))\<lparr>position := position lx'\<rparr>"
    by (simp add: Lexer_inv_def Lexer_init_def)
  with c le show ?thesis by simp
qed

theorem compute_prefix_ignores_trailing_witness:
  "compute_prefix (Lexer_init ''+ 1 2'')
     = Some (Inr (Add (Num 1) (Num 2)), \<lparr>input_string = ''+ 1 2'', position = 5, length' = 5\<rparr>)
   \<and> compute_prefix (Lexer_init ''+ 1 2 3 @'')
     = Some (Inr (Add (Num 1) (Num 2)), \<lparr>input_string = ''+ 1 2 3 @'', position = 5, length' = 9\<rparr>)"
proof -
  have a: "compute_prefix (Lexer_init ''+ 1 2'')
     = Some (Inr (Add (Num 1) (Num 2)), \<lparr>input_string = ''+ 1 2'', position = 5, length' = 5\<rparr>)"
    by (simp add: compute_prefix.simps next_valid_token.simps getToken_def Lexer_init_def
        index_def isdigit_def scan_digits.simps non_numeric_tokens_def operations_map_def
        operators_def py_int_def isdecimal_def digit_value_def)
  have b: "\<not> starts_with_digit '' 3 @''" by (simp add: starts_with_digit_def isdigit_def)
  from compute_prefix_ignores_trailing [OF a b] a show ?thesis by (simp add: Lexer_init_def)
qed

section \<open>Blanks between tokens\<close>










section \<open>Operators\<close>

lemma operator_character:
  assumes "non_numeric_tokens c = Some k" and "operations_map k = Some f"
  shows "\<not> isblank c" and "\<not> isdigit c"
proof -
  from assms(2) have "k \<in> operators" by (simp add: operations_map_SomeD)
  with assms(1) have "c \<in> {CHR ''+'', CHR ''-'', CHR ''*'', CHR ''/''}"
    by (auto simp: non_numeric_tokens_def operators_def split: if_splits)
  then show "\<not> isblank c" and "\<not> isdigit c"
    by (auto simp: isblank_def isdigit_def)
qed

lemma nvt_operator:
  assumes c: "non_numeric_tokens c = Some k" and f: "operations_map k = Some f"
  shows "nvt (c # CHR '' '' # t1 @ CHR '' '' # t2) = (Inr \<lparr>text' = [c], kind = k\<rparr>, 1)"
proof -
  note oc = operator_character [OF c f]
  from oc c show ?thesis by (simp add: nvt_def)
qed

lemma next_valid_token_operator:
  assumes c: "non_numeric_tokens c = Some k" and f: "operations_map k = Some f"
  shows "\<exists>lx1. next_valid_token (Lexer_init (c # CHR '' '' # t1 @ CHR '' '' # t2)) = (Inr \<lparr>text' = [c], kind = k\<rparr>, lx1)
    \<and> rest lx1 = [CHR '' ''] @ rest (Lexer_init t1) @ CHR '' '' # t2
    \<and> Lexer_inv lx1 \<and> input_string lx1 = (c # CHR '' '' # t1 @ CHR '' '' # t2)"
proof -
  let ?I = "c # CHR '' '' # t1 @ CHR '' '' # t2"
  let ?tok = "\<lparr>text' = [c], kind = k\<rparr>"
  have "nvt ?I = (Inr ?tok, 1)" using c f by (rule nvt_operator)
  then have "fst (nvt (rest (Lexer_init ?I))) = Inr ?tok" "snd (nvt (rest (Lexer_init ?I))) = 1"
    by (simp_all only: rest_init fst_conv snd_conv)
  with next_valid_token_restI [OF Lexer_inv_init, of ?I "Inr ?tok"]
  obtain lx1 where n: "next_valid_token (Lexer_init ?I) = (Inr ?tok, lx1)"
    and r1: "rest lx1 = drop 1 (rest (Lexer_init ?I))"
    and i1: "Lexer_inv lx1" and s1: "input_string lx1 = input_string (Lexer_init ?I)"
    by metis
  from r1 have "rest lx1 = [CHR '' ''] @ rest (Lexer_init t1) @ CHR '' '' # t2"
    by (simp add: rest_init)
  moreover from s1 have "input_string lx1 = ?I" by (simp add: Lexer_init_def)
  ultimately show ?thesis using n i1 by blast
qed

text \<open>
  An operator character, a space, a text that parses to \<open>e1\<close> and is read to its end,
  a space, and a text that parses to \<open>e2\<close>: the whole parses to the node of the
  operator over \<open>e1\<close> and \<open>e2\<close>, in this order.
\<close>

lemma compute_prefix_compose:
  assumes c: "non_numeric_tokens c = Some k" and f: "operations_map k = Some f"
    and p1: "compute_prefix (Lexer_init t1) = Some (Inr e1, l1)" and end1: "position l1 = length t1"
    and p2: "compute_prefix (Lexer_init t2) = Some (Inr e2, l2)"
  shows "compute_prefix (Lexer_init (c # CHR '' '' # t1 @ CHR '' '' # t2))
           = Some (Inr (f e1 e2),
                   (Lexer_init (c # CHR '' '' # t1 @ CHR '' '' # t2))
                     \<lparr>position := length t1 + 3 + position l2\<rparr>)"
proof -
  let ?I = "c # CHR '' '' # t1 @ CHR '' '' # t2"
  let ?tok = "\<lparr>text' = [c], kind = k\<rparr>"
  have sp: "list_all isblank [CHR '' '']" by (simp add: isblank_def)
  have nd: "\<not> starts_with_digit (CHR '' '' # t2)" "\<not> starts_with_digit []"
    by (simp_all add: starts_with_digit_def isdigit_def)
  from next_valid_token_operator [OF c f, of t1 t2]
  obtain lx1 where n: "next_valid_token (Lexer_init ?I) = (Inr ?tok, lx1)"
    and r1: "rest lx1 = [CHR '' ''] @ rest (Lexer_init t1) @ CHR '' '' # t2"
    and i1: "Lexer_inv lx1" and s1: "input_string lx1 = ?I"
    by blast
  from compute_prefix_embedded [OF sp nd(1) Lexer_inv_init i1 r1 p1]
  obtain lx2 where a: "compute_prefix lx1 = Some (Inr e1, lx2)"
    and r2: "rest lx2 = rest l1 @ CHR '' '' # t2"
    and i2: "Lexer_inv lx2" and s2: "input_string lx2 = input_string lx1" by blast
  from compute_prefix_SomeD [OF p1] have m1: "moved (Lexer_init t1) l1" .
  then have "input_string l1 = t1" by (simp add: moved_def Lexer_init_def)
  with end1 have "rest l1 = []" by (simp add: rest_def)
  with r2 have r2': "rest lx2 = [CHR '' ''] @ rest (Lexer_init t2) @ []" by (simp add: rest_init)
  from compute_prefix_embedded [OF sp nd(2) Lexer_inv_init i2 r2' p2]
  obtain lx3 where b: "compute_prefix lx2 = Some (Inr e2, lx3)"
    and r3: "rest lx3 = rest l2 @ []"
    and i3: "Lexer_inv lx3" and s3: "input_string lx3 = input_string lx2" by blast
  from s1 s2 s3 have s3': "input_string lx3 = ?I" by simp
  from compute_prefix_SomeD [OF p2] have m2: "moved (Lexer_init t2) l2" .
  then have s: "input_string l2 = t2" by (simp add: moved_def Lexer_init_def)
  from moved_inv [OF m2 Lexer_inv_init] have "Lexer_inv l2" .
  from Lexer_inv_position [OF this] s have "position l2 + length (rest l2) = length t2" by simp
  moreover from Lexer_inv_position [OF i3] s3' r3
  have "position lx3 + length (rest l2) = length t1 + length t2 + 3" by simp
  ultimately have p: "position lx3 = length t1 + 3 + position l2" by arith
  from i3 s3' have "length' lx3 = length ?I" by (simp add: Lexer_inv_def)
  with p s3' have "lx3 = (Lexer_init ?I)\<lparr>position := length t1 + 3 + position l2\<rparr>"
    by (simp add: Lexer_init_def)
  moreover have "operations_map (kind ?tok) = Some f" using f by simp
  from compute_prefix_op [OF n this a b]
  have "compute_prefix (Lexer_init ?I) = Some (Inr (f e1 e2), lx3)" .
  ultimately show ?thesis by simp
qed

text \<open>
  Claim C1. When the next significant token is one of the four operators,
  \<^verbatim>\<open>compute_prefix\<close> makes two recursive calls: the first on the lexer as the operator
  token left it, the second on the lexer as the first call left it. When both return
  expressions \<open>a\<close> and \<open>b\<close>, the result is the node of the operator (\<^verbatim>\<open>ADD\<close> gives
  \<open>Add\<close>, \<^verbatim>\<open>SUB\<close> gives \<open>Sub\<close>, \<^verbatim>\<open>MUL\<close> gives \<open>Mul\<close>, \<^verbatim>\<open>DIV\<close> gives \<open>Div\<close>) with
  \<open>a\<close> on the left and \<open>b\<close> on the right, in the state the second call left; an
  error of either call is the result instead. On texts: an operator character, a space,
  the whole text of an expression \<open>e1\<close>, a space and the text of an expression \<open>e2\<close>
  parse to the operator's node over \<open>e1\<close> and \<open>e2\<close>.
\<close>

theorem compute_prefix_operator:
  assumes "next_valid_token lx = (Inr tok, lx1)" and "kind tok \<in> operators"
  shows "(\<forall>a lx2 b lx3.
            compute_prefix lx1 = Some (Inr a, lx2) \<and> compute_prefix lx2 = Some (Inr b, lx3) \<longrightarrow>
              (kind tok = ADD \<longrightarrow> compute_prefix lx = Some (Inr (Add a b), lx3))
            \<and> (kind tok = SUB \<longrightarrow> compute_prefix lx = Some (Inr (Sub a b), lx3))
            \<and> (kind tok = MUL \<longrightarrow> compute_prefix lx = Some (Inr (Mul a b), lx3))
            \<and> (kind tok = DIV \<longrightarrow> compute_prefix lx = Some (Inr (Div a b), lx3)))
       \<and> (\<forall>err lx2. compute_prefix lx1 = Some (Inl err, lx2) \<longrightarrow>
            compute_prefix lx = Some (Inl err, lx2))
       \<and> (\<forall>a lx2 err lx3.
            compute_prefix lx1 = Some (Inr a, lx2) \<and> compute_prefix lx2 = Some (Inl err, lx3) \<longrightarrow>
            compute_prefix lx = Some (Inl err, lx3))
       \<and> (\<forall>c k f t1 e1 l1 t2 e2 l2.
            non_numeric_tokens c = Some k \<and> operations_map k = Some f
            \<and> compute_prefix (Lexer_init t1) = Some (Inr e1, l1) \<and> position l1 = length t1
            \<and> compute_prefix (Lexer_init t2) = Some (Inr e2, l2) \<longrightarrow>
            compute_prefix (Lexer_init (c # CHR '' '' # t1 @ CHR '' '' # t2))
              = Some (Inr (f e1 e2),
                      (Lexer_init (c # CHR '' '' # t1 @ CHR '' '' # t2))
                        \<lparr>position := length t1 + 3 + position l2\<rparr>))"
proof -
  from assms(2) have nn: "kind tok \<noteq> NUM" by (auto simp: operators_def)
  have a: "\<forall>a lx2 b lx3.
            compute_prefix lx1 = Some (Inr a, lx2) \<and> compute_prefix lx2 = Some (Inr b, lx3) \<longrightarrow>
              (kind tok = ADD \<longrightarrow> compute_prefix lx = Some (Inr (Add a b), lx3))
            \<and> (kind tok = SUB \<longrightarrow> compute_prefix lx = Some (Inr (Sub a b), lx3))
            \<and> (kind tok = MUL \<longrightarrow> compute_prefix lx = Some (Inr (Mul a b), lx3))
            \<and> (kind tok = DIV \<longrightarrow> compute_prefix lx = Some (Inr (Div a b), lx3))"
  proof (intro allI impI, elim conjE)
    fix a lx2 b lx3
    assume ca: "compute_prefix lx1 = Some (Inr a, lx2)"
      and cb: "compute_prefix lx2 = Some (Inr b, lx3)"
    have node: "compute_prefix lx = Some (Inr (f a b), lx3)"
      if "operations_map (kind tok) = Some f" for f
      using assms(1) that ca cb by (rule compute_prefix_op)
    show "(kind tok = ADD \<longrightarrow> compute_prefix lx = Some (Inr (Add a b), lx3))
        \<and> (kind tok = SUB \<longrightarrow> compute_prefix lx = Some (Inr (Sub a b), lx3))
        \<and> (kind tok = MUL \<longrightarrow> compute_prefix lx = Some (Inr (Mul a b), lx3))
        \<and> (kind tok = DIV \<longrightarrow> compute_prefix lx = Some (Inr (Div a b), lx3))"
      by (auto intro!: node simp: operations_map_def)
  qed
  have b: "\<forall>err lx2. compute_prefix lx1 = Some (Inl err, lx2) \<longrightarrow>
            compute_prefix lx = Some (Inl err, lx2)"
    using assms nn by (simp add: compute_prefix.simps [of lx])
  have c: "\<forall>a lx2 err lx3.
            compute_prefix lx1 = Some (Inr a, lx2) \<and> compute_prefix lx2 = Some (Inl err, lx3) \<longrightarrow>
            compute_prefix lx = Some (Inl err, lx3)"
    using assms nn by (simp add: compute_prefix.simps [of lx])
  have d: "\<forall>c k f t1 e1 l1 t2 e2 l2.
            non_numeric_tokens c = Some k \<and> operations_map k = Some f
            \<and> compute_prefix (Lexer_init t1) = Some (Inr e1, l1) \<and> position l1 = length t1
            \<and> compute_prefix (Lexer_init t2) = Some (Inr e2, l2) \<longrightarrow>
            compute_prefix (Lexer_init (c # CHR '' '' # t1 @ CHR '' '' # t2))
              = Some (Inr (f e1 e2),
                      (Lexer_init (c # CHR '' '' # t1 @ CHR '' '' # t2))
                        \<lparr>position := length t1 + 3 + position l2\<rparr>)"
    using compute_prefix_compose by blast
  from a b c d show ?thesis by blast
qed

theorem compute_prefix_operator_witness:
  "next_valid_token (Lexer_init ''* 4 2'')
     = (Inr \<lparr>text' = ''*'', kind = MUL\<rparr>, \<lparr>input_string = ''* 4 2'', position = 1, length' = 5\<rparr>)
   \<and> compute_prefix \<lparr>input_string = ''* 4 2'', position = 1, length' = 5\<rparr>
     = Some (Inr (Num 4), \<lparr>input_string = ''* 4 2'', position = 3, length' = 5\<rparr>)
   \<and> compute_prefix \<lparr>input_string = ''* 4 2'', position = 3, length' = 5\<rparr>
     = Some (Inr (Num 2), \<lparr>input_string = ''* 4 2'', position = 5, length' = 5\<rparr>)
   \<and> compute_prefix (Lexer_init ''* 4 2'')
     = Some (Inr (Mul (Num 4) (Num 2)), \<lparr>input_string = ''* 4 2'', position = 5, length' = 5\<rparr>)
   \<and> compute_prefix (Lexer_init ''3'')
     = Some (Inr (Num 3), \<lparr>input_string = ''3'', position = 1, length' = 1\<rparr>)
   \<and> compute_prefix (Lexer_init ''+ 3 * 4 2'')
     = Some (Inr (Add (Num 3) (Mul (Num 4) (Num 2))),
             \<lparr>input_string = ''+ 3 * 4 2'', position = 9, length' = 9\<rparr>)"
proof -
  note defs = next_valid_token.simps getToken_def Lexer_init_def
        index_def isdigit_def scan_digits.simps non_numeric_tokens_def operations_map_def
        operators_def py_int_def isdecimal_def digit_value_def
  have n: "next_valid_token (Lexer_init ''* 4 2'')
     = (Inr \<lparr>text' = ''*'', kind = MUL\<rparr>, \<lparr>input_string = ''* 4 2'', position = 1, length' = 5\<rparr>)"
    by (simp add: defs)
  have k: "kind \<lparr>text' = ''*'', kind = MUL\<rparr> \<in> operators" by (simp add: operators_def)
  have a: "compute_prefix \<lparr>input_string = ''* 4 2'', position = 1, length' = 5\<rparr>
     = Some (Inr (Num 4), \<lparr>input_string = ''* 4 2'', position = 3, length' = 5\<rparr>)"
    by (simp add: compute_prefix.simps defs)
  have b: "compute_prefix \<lparr>input_string = ''* 4 2'', position = 3, length' = 5\<rparr>
     = Some (Inr (Num 2), \<lparr>input_string = ''* 4 2'', position = 5, length' = 5\<rparr>)"
    by (simp add: compute_prefix.simps defs)
  have t: "compute_prefix (Lexer_init ''3'')
     = Some (Inr (Num 3), \<lparr>input_string = ''3'', position = 1, length' = 1\<rparr>)"
    by (simp add: compute_prefix.simps defs)
  have c: "non_numeric_tokens CHR ''+'' = Some ADD" "operations_map ADD = Some Add"
    by (simp_all add: non_numeric_tokens_def operations_map_def)
  note inst = compute_prefix_operator [OF n k]
  from inst a b have m: "compute_prefix (Lexer_init ''* 4 2'')
     = Some (Inr (Mul (Num 4) (Num 2)), \<lparr>input_string = ''* 4 2'', position = 5, length' = 5\<rparr>)"
    by simp
  note comp = inst [THEN conjunct2, THEN conjunct2, THEN conjunct2, rule_format,
      of "CHR ''+''" ADD Add "''3''" "Num 3" _ "''* 4 2''" "Mul (Num 4) (Num 2)"]
  from comp c t m have "compute_prefix (Lexer_init (CHR ''+'' # CHR '' '' # ''3'' @ CHR '' '' # ''* 4 2''))
     = Some (Inr (Add (Num 3) (Mul (Num 4) (Num 2))),
         (Lexer_init (CHR ''+'' # CHR '' '' # ''3'' @ CHR '' '' # ''* 4 2''))
            \<lparr>position := length ''3'' + 3 + position \<lparr>input_string = ''* 4 2'', position = 5, length' = 5\<rparr>\<rparr>)"
    by (simp add: Lexer_init_def)
  then have "compute_prefix (Lexer_init ''+ 3 * 4 2'')
     = Some (Inr (Add (Num 3) (Mul (Num 4) (Num 2))),
             \<lparr>input_string = ''+ 3 * 4 2'', position = 9, length' = 9\<rparr>)"
    by (simp add: Lexer_init_def)
  with n a b m t show ?thesis by simp
qed

end
